theory Spec2Isabelle
  imports Complex_Main "HOL-Library.Word" "HOL-Library.Monad_Syntax"
begin

section \<open>Command line calculator: the model\<close>

text \<open>
  The program is one C file. \<open>evalExpression\<close> splits a line at spaces with \<open>strtok\<close>,
  checks each token with \<open>validOperand\<close> or \<open>validOperator\<close>, stores operands and
  operators in two arrays, and then evaluates the arrays in place, one pass per symbol of
  \<open>order_of_ops\<close>.

  Conventions of the model.
  \<^item> A C string is the list of its characters before the terminating NUL.
  \<^item> A heap array is the list of its elements. Reading and writing go through \<open>rd\<close> and
    \<open>wr\<close>, which return \<open>None\<close> outside the allocated length, where the C program
    has undefined behaviour.
  \<^item> \<open>int\<close> is 32 bits wide, \<open>size_t\<close> 64 bits, \<open>sizeof(double)\<close> is 8 and
    \<open>sizeof(char)\<close> is 1. The counters \<open>num_operands\<close> and \<open>num_operators\<close> are
    integers whose increment wraps from \<open>INT_MAX\<close> to \<open>INT_MIN\<close>, as it does on
    two's-complement machines; the indices of the evaluation loops stay below the
    counters and never wrap. The \<open>unsigned int\<close> counter of \<open>validOperand\<close> is a
    32-bit word, since it wraps around.
  \<^item> \<open>realloc\<close> returns \<open>NULL\<close> when the requested size exceeds \<open>PTRDIFF_MAX\<close>,
    as glibc's does, and the requested block otherwise; the program then prints an
    allocation error and calls \<open>exit\<close>. \<open>calloc\<close> returns the requested block,
    also for no element, as in glibc.
  \<^item> A part of the program either hands on a value (\<open>Returns\<close>) or ends the process
    with \<open>exit\<close> (\<open>Exits\<close>, with the text printed up to then).
  \<^item> \<open>printf\<close> appends the printed text to a list of strings.
  \<^item> The type \<open>double\<close>, its operations, \<open>atof\<close>, \<open>DBL_MAX\<close> and the test
    \<open>fabs(b) < DBL_EPSILON\<close> come from the C library and are a parameter of every
    function that uses them.
\<close>

subsection \<open>The arithmetic of double\<close>

record 'a arith =
  atof :: "string \<Rightarrow> 'a"
  fadd :: "'a \<Rightarrow> 'a \<Rightarrow> 'a"
  fsub :: "'a \<Rightarrow> 'a \<Rightarrow> 'a"
  fmul :: "'a \<Rightarrow> 'a \<Rightarrow> 'a"
  fdiv :: "'a \<Rightarrow> 'a \<Rightarrow> 'a"
  fabs_lt_eps :: "'a \<Rightarrow> bool"
  DBL_MAX :: "'a"
  zero :: "'a"

subsection \<open>Arrays\<close>

definition rd :: "'a list \<Rightarrow> int \<Rightarrow> 'a option" where
  "rd xs i = (if 0 \<le> i \<and> i < int (length xs) then Some (xs ! nat i) else None)"

definition wr :: "'a list \<Rightarrow> int \<Rightarrow> 'a \<Rightarrow> 'a list option" where
  "wr xs i v = (if 0 \<le> i \<and> i < int (length xs) then Some (xs[nat i := v]) else None)"

subsection \<open>The validators\<close>

text \<open>\<open>isdigit\<close> of the C locale: the ten ASCII digits.\<close>

definition isdigit :: "char \<Rightarrow> bool" where
  "isdigit c = (c \<in> set ''0123456789'')"

text \<open>The loop of \<open>validOperand\<close>, with the counter \<open>num_dec\<close> as its state.\<close>

fun validOperand_loop :: "32 word \<Rightarrow> string \<Rightarrow> bool" where
  "validOperand_loop num_dec [] = (num_dec \<le> 1)"
| "validOperand_loop num_dec (c # str) =
     (if \<not> isdigit c \<and> c \<noteq> CHR ''.'' then False
      else if c = CHR ''.'' then validOperand_loop (num_dec + 1) str
      else validOperand_loop num_dec str)"

definition validOperand :: "string \<Rightarrow> bool" where
  "validOperand str = validOperand_loop 0 str"

text \<open>\<open>strlen(str) == 1 && strpbrk(str, "+-*/") != NULL\<close>\<close>

definition validOperator :: "string \<Rightarrow> bool" where
  "validOperator str = (length str = 1 \<and> (\<exists>c \<in> set str. c \<in> set ''+-*/''))"

subsection \<open>indexOfOp and applyOp\<close>

function indexOfOp_loop :: "char list \<Rightarrow> char \<Rightarrow> int \<Rightarrow> int \<Rightarrow> int option" where
  "indexOfOp_loop operators op num_operators i =
     (if i < num_operators then
        (case rd operators i of
           None \<Rightarrow> None
         | Some c \<Rightarrow> if c = op then Some i
                     else indexOfOp_loop operators op num_operators (i + 1))
      else Some (- 1))"
  by pat_completeness auto
termination
  by (relation "measure (\<lambda>(operators, op, n, i). nat (n - i))") auto

declare indexOfOp_loop.simps [simp del]

definition indexOfOp :: "char list \<Rightarrow> char \<Rightarrow> int \<Rightarrow> int option" where
  "indexOfOp operators op num_operators = indexOfOp_loop operators op num_operators 0"

text \<open>The \<open>switch\<close> has no default: any other character leaves \<open>result\<close> at \<open>0.0\<close>.\<close>

definition applyOp :: "'a arith \<Rightarrow> 'a \<Rightarrow> 'a \<Rightarrow> char \<Rightarrow> 'a" where
  "applyOp A a b op =
     (if op = CHR ''+'' then fadd A a b
      else if op = CHR ''-'' then fsub A a b
      else if op = CHR ''*'' then fmul A a b
      else if op = CHR ''/'' then (if fabs_lt_eps A b then DBL_MAX A else fdiv A a b)
      else zero A)"

subsection \<open>The tokenizer\<close>

text \<open>
  \<open>strtok(exp, " ")\<close> and \<open>strtok(NULL, " ")\<close> as one function of the text that is left
  to scan: skip the leading delimiters; at the end of the text there is no token;
  otherwise the token runs up to the next delimiter, and scanning resumes behind it.
  The only delimiter is the space character.
\<close>

definition strtok :: "string \<Rightarrow> (string \<times> string) option" where
  "strtok s =
     (let s1 = dropWhile (\<lambda>c. c = CHR '' '') s
      in if s1 = [] then None
         else Some (takeWhile (\<lambda>c. c \<noteq> CHR '' '') s1,
                    drop 1 (dropWhile (\<lambda>c. c \<noteq> CHR '' '') s1)))"

subsection \<open>The state of evalExpression\<close>

record 'a calc =
  operands :: "'a list"
  operators :: "char list"
  evaluated :: "bool list"
  num_operands :: int
  num_operators :: int
  error_occurred :: bool
  stdout :: "string list"

definition init :: "'a calc" where
  "init = \<lparr>operands = [], operators = [], evaluated = [], num_operands = 0,
           num_operators = 0, error_occurred = False, stdout = []\<rparr>"

definition printf :: "string \<Rightarrow> 'a calc \<Rightarrow> 'a calc" where
  "printf msg s = s\<lparr>stdout := stdout s @ [msg]\<rparr>"

text \<open>\<open>token[0]\<close>: the first character, or the terminator of an empty string.\<close>

definition first_char :: "string \<Rightarrow> char" where
  "first_char token = (case token of [] \<Rightarrow> CHR 0x00 | c # _ \<Rightarrow> c)"

definition printAllocError :: "'a calc \<Rightarrow> 'a calc" where
  "printAllocError s = printf ''Memory allocation error\<newline>'' s"

datatype 'r ending = Returns 'r | Exits "string list"

subsection \<open>The counters and realloc\<close>

text \<open>
  \<open>++n\<close> on a 32-bit \<open>int\<close>: one more, and \<open>INT_MIN\<close> after \<open>INT_MAX\<close>.
\<close>

definition incr :: "int \<Rightarrow> int" where
  "incr n = (if n = 2147483647 then - 2147483648 else n + 1)"

text \<open>
  \<open>realloc(p, elem_size * n) == NULL\<close>. The size is computed in \<open>size_t\<close>: the
  \<open>int\<close> \<open>n\<close> is converted modulo \<open>2 ^ 64\<close> and so is the product. A request
  above \<open>PTRDIFF_MAX = 2 ^ 63 - 1\<close> fails; that is the case of a negative \<open>n\<close>. Any
  other request is taken to succeed.
\<close>

definition realloc_fails :: "int \<Rightarrow> int \<Rightarrow> bool" where
  "realloc_fails elem_size n = ((elem_size * n) mod 2 ^ 64 > 2 ^ 63 - 1)"

subsection \<open>Parsing\<close>

text \<open>
  The \<open>while (token != NULL)\<close> loop. \<open>line\<close> is the part of the input that
  \<open>strtok\<close> has not scanned yet; the next token is taken at the head of each round,
  as the calls before the loop and at the end of its body do. The counter is
  incremented first; when \<open>realloc\<close> fails for the new count the program prints the
  allocation error and exits; otherwise the array is one element longer and the new
  element is written at once, so the array grows by the value stored. A \<open>break\<close>
  leaves the loop with the state as it is.
\<close>

function parse_loop :: "'a arith \<Rightarrow> string \<Rightarrow> bool \<Rightarrow> 'a calc \<Rightarrow> 'a calc ending" where
  "parse_loop A line parse_operand s =
     (case strtok line of
        None \<Rightarrow> Returns s
      | Some (token, rest) \<Rightarrow>
          if parse_operand then
            (if \<not> validOperand token then
               Returns ((printf (''Invalid operand: '' @ token @ ''\<newline>'') s)
                          \<lparr>error_occurred := True\<rparr>)
             else if realloc_fails 8 (incr (num_operands s)) then
               Exits (stdout (printAllocError s))
             else parse_loop A rest (\<not> parse_operand)
                    (s\<lparr>num_operands := incr (num_operands s),
                       operands := operands s @ [atof A token]\<rparr>))
          else
            (if \<not> validOperator token then
               Returns ((printf (''Invalid operator: '' @ token @ ''\<newline>'') s)
                          \<lparr>error_occurred := True\<rparr>)
             else if realloc_fails 1 (incr (num_operators s)) then
               Exits (stdout (printAllocError s))
             else parse_loop A rest (\<not> parse_operand)
                    (s\<lparr>num_operators := incr (num_operators s),
                       operators := operators s @ [first_char token]\<rparr>)))"
  by pat_completeness auto
termination
proof -
  have shorter: "length r < length s" if a: "strtok s = Some (t, r)" for s t r
  proof -
    let ?s1 = "dropWhile (\<lambda>c. c = CHR '' '') s"
    let ?s2 = "dropWhile (\<lambda>c. c \<noteq> CHR '' '') ?s1"
    from a have ne: "?s1 \<noteq> []" and r: "r = drop 1 ?s2"
      by (auto simp: strtok_def Let_def split: if_splits)
    from ne have "hd ?s1 \<noteq> CHR '' ''"
      using hd_dropWhile by blast
    with ne have "length ?s2 < length ?s1"
      by (cases ?s1) (auto intro: le_imp_less_Suc length_dropWhile_le)
    moreover have "length ?s1 \<le> length s"
      by (rule length_dropWhile_le)
    ultimately show ?thesis
      using r by simp
  qed
  show ?thesis
    by (relation "measure (\<lambda>(A, line, parse_operand, s). length line)")
       (auto dest: shorter)
qed

declare parse_loop.simps [simp del]

text \<open>The check for an extra operator, and the allocation of \<open>evaluated\<close>.\<close>

definition check_structure :: "'a calc \<Rightarrow> 'a calc" where
  "check_structure s =
     (if \<not> error_occurred s \<and> num_operands s - num_operators s \<noteq> 1
      then (printf ''Missing last operand\<newline>'' s)\<lparr>error_occurred := True\<rparr>
      else s)"

definition calloc_evaluated :: "'a calc \<Rightarrow> 'a calc" where
  "calloc_evaluated s = s\<lparr>evaluated := replicate (nat (num_operands s)) False\<rparr>"

subsection \<open>Evaluation\<close>

definition order_of_ops :: "char list" where
  "order_of_ops = [CHR ''*'', CHR ''/'', CHR ''+'', CHR ''-'']"

text \<open>
  The loop \<open>for (j = 0; j < num_operands; j++)\<close> that copies the new value into
  every marked slot: \<open>flags\<close> is the array \<open>evaluated\<close>, \<open>n\<close> is \<open>num_operands\<close>
  and \<open>vals\<close> is the array \<open>operands\<close>.
\<close>

function propagate :: "'a \<Rightarrow> bool list \<Rightarrow> int \<Rightarrow> int \<Rightarrow> 'a list \<Rightarrow> 'a list option" where
  "propagate temp_val flags n j vals =
     (if j < n then
        (case rd flags j of
           None \<Rightarrow> None
         | Some e \<Rightarrow>
             if e then
               (case wr vals j temp_val of
                  None \<Rightarrow> None
                | Some vals' \<Rightarrow> propagate temp_val flags n (j + 1) vals')
             else propagate temp_val flags n (j + 1) vals)
      else Some vals)"
  by pat_completeness auto
termination
  by (relation "measure (\<lambda>(t, flags, n, j, vals). nat (n - j))") auto

declare propagate.simps [simp del]

text \<open>
  One round of the \<open>while\<close> loop: the call of \<open>indexOfOp\<close> in the loop condition and the
  body. \<open>Stop\<close> leaves the loop (no slot found, or the \<open>break\<close> after a division by
  zero), \<open>Again\<close> goes round once more; \<open>None\<close> is an access outside an array.
\<close>

datatype 'a round = Stop 'a | Again 'a

definition loop_body :: "'a arith \<Rightarrow> char \<Rightarrow> 'a calc \<Rightarrow> 'a calc round option" where
  "loop_body A op_curr s =
     do {
       op_dex \<leftarrow> indexOfOp (operators s) op_curr (num_operators s);
       if op_dex = - 1 then Some (Stop s)
       else do {
         a \<leftarrow> rd (operands s) op_dex;
         b \<leftarrow> rd (operands s) (op_dex + 1);
         let temp_val = applyOp A a b op_curr;
         if temp_val = DBL_MAX A then
           Some (Stop ((printf ''Divide by zero error\<newline>'' s)\<lparr>error_occurred := True\<rparr>))
         else do {
           ev1 \<leftarrow> wr (evaluated s) op_dex True;
           ev2 \<leftarrow> wr ev1 (op_dex + 1) True;
           vals \<leftarrow> propagate temp_val ev2 (num_operands s) 0 (operands s);
           ops \<leftarrow> wr (operators s) op_dex (CHR 0x00);
           Some (Again (s\<lparr>evaluated := ev2, operands := vals, operators := ops\<rparr>))
         }
       }
     }"

text \<open>
  The \<open>while\<close> loop for one symbol. The outer \<open>None\<close> is a loop that never leaves; the
  inner \<open>None\<close> is an access outside an array.
\<close>

partial_function (option) while_loop ::
  "'a arith \<Rightarrow> char \<Rightarrow> 'a calc \<Rightarrow> 'a calc option option" where
  "while_loop A op_curr s =
     (case loop_body A op_curr s of
        None \<Rightarrow> Some None
      | Some (Stop s') \<Rightarrow> Some (Some s')
      | Some (Again s') \<Rightarrow> while_loop A op_curr s')"

declare while_loop.simps [code]

text \<open>The \<open>for\<close> loop over the symbols, left when an error has occurred.\<close>

fun for_loop :: "'a arith \<Rightarrow> char list \<Rightarrow> 'a calc \<Rightarrow> 'a calc option option" where
  "for_loop A [] s = Some (Some s)"
| "for_loop A (op_curr # ops) s =
     (case while_loop A op_curr s of
        None \<Rightarrow> None
      | Some None \<Rightarrow> Some None
      | Some (Some s') \<Rightarrow> if error_occurred s' then Some (Some s') else for_loop A ops s')"

subsection \<open>evalExpression\<close>

text \<open>
  What the caller sees when the call returns: the returned flag, the content of
  \<open>*result\<close> after the call and the text printed. \<open>result\<close> is the content of
  \<open>*result\<close> before the call. The outer \<open>None\<close> is a call that neither returns nor
  exits, the inner \<open>None\<close> an access outside an array.
\<close>

record 'a outcome =
  returned :: bool
  result_after :: 'a
  printed :: "string list"

definition parse :: "'a arith \<Rightarrow> string \<Rightarrow> 'a calc ending" where
  "parse A line =
     (case parse_loop A line True init of
        Exits out \<Rightarrow> Exits out
      | Returns s \<Rightarrow> Returns (calloc_evaluated (check_structure s)))"

definition evalExpression ::
  "'a arith \<Rightarrow> string \<Rightarrow> 'a \<Rightarrow> 'a outcome ending option option" where
  "evalExpression A line result =
     (case parse A line of
        Exits out \<Rightarrow> Some (Some (Exits out))
      | Returns s \<Rightarrow>
          if \<not> error_occurred s then
            (case for_loop A order_of_ops s of
               None \<Rightarrow> None
             | Some None \<Rightarrow> Some None
             | Some (Some s') \<Rightarrow>
                 if error_occurred s' then
                   Some (Some (Returns \<lparr>returned = False, result_after = zero A,
                                          printed = stdout s'\<rparr>))
                 else
                   (case rd (operands s') 0 of
                      None \<Rightarrow> Some None
                    | Some v \<Rightarrow>
                        Some (Some (Returns \<lparr>returned = True, result_after = v,
                                               printed = stdout s'\<rparr>))))
          else Some (Some (Returns \<lparr>returned = False, result_after = result,
                                      printed = stdout s\<rparr>)))"

subsection \<open>The exact reading of the arithmetic\<close>

text \<open>
  One instance of the parameter, used to run the program on concrete lines: every
  operation returns the mathematical result, a real number. IEEE 754 double
  arithmetic agrees with it whenever the operands and the result are representable,
  as small integers and \<open>DBL_MAX\<close> are. \<open>atof_exact\<close> reads digits, an optional
  point and more digits, which is all that a token accepted by \<open>validOperand\<close> can
  hold; a token without digits reads as 0.
\<close>

definition digit_val :: "char \<Rightarrow> nat" where
  "digit_val c = of_char c - 48"

definition decimal :: "string \<Rightarrow> nat" where
  "decimal ds = foldl (\<lambda>n c. 10 * n + digit_val c) 0 ds"

definition atof_exact :: "string \<Rightarrow> real" where
  "atof_exact str =
     (let ip = takeWhile isdigit str;
          rest = dropWhile isdigit str;
          fp = (case rest of [] \<Rightarrow> []
                | c # r \<Rightarrow> if c = CHR ''.'' then takeWhile isdigit r else [])
      in real (decimal ip) + real (decimal fp) / 10 ^ length fp)"

definition exact_arith :: "real arith" where
  "exact_arith =
     \<lparr>atof = atof_exact, fadd = (+), fsub = (-), fmul = (*), fdiv = (/),
      fabs_lt_eps = (\<lambda>b. \<bar>b\<bar> < 1 / 2 ^ 52),
      DBL_MAX = (2 ^ 53 - 1) * 2 ^ 971, zero = 0\<rparr>"

subsection \<open>Two-tier precedence, as the specification words it\<close>

text \<open>
  The value of an expression under the usual precedence: the operations \<open>*\<close> and
  \<open>/\<close> are applied first, then \<open>+\<close> and \<open>-\<close>, each tier from left to right.
  An expression is its first operand and the list of the operators, each with the
  operand to its right. \<open>standard_terms\<close> folds every run of \<open>*\<close> and \<open>/\<close> into
  one term; \<open>left_fold\<close> then applies what is left in order.
\<close>

fun standard_terms :: "'a arith \<Rightarrow> 'a \<Rightarrow> (char \<times> 'a) list \<Rightarrow> 'a \<times> (char \<times> 'a) list" where
  "standard_terms A t [] = (t, [])"
| "standard_terms A t ((op, x) # r) =
     (if op = CHR ''*'' \<or> op = CHR ''/'' then standard_terms A (applyOp A t x op) r
      else (case standard_terms A x r of (u, r') \<Rightarrow> (t, (op, u) # r')))"

fun left_fold :: "'a arith \<Rightarrow> 'a \<Rightarrow> (char \<times> 'a) list \<Rightarrow> 'a" where
  "left_fold A acc [] = acc"
| "left_fold A acc ((op, x) # r) = left_fold A (applyOp A acc x op) r"

definition standard_value :: "'a arith \<Rightarrow> 'a \<Rightarrow> (char \<times> 'a) list \<Rightarrow> 'a" where
  "standard_value A x r = (case standard_terms A x r of (t, r') \<Rightarrow> left_fold A t r')"

subsection \<open>The tokens of a line\<close>

text \<open>
  The tokens that successive calls of \<open>strtok\<close> return for a line, and the notions
  the statements about parsing use: a token is valid at an operand position when
  \<open>validOperand\<close> accepts it and at an operator position when \<open>validOperator\<close> does;
  \<open>alternating\<close> says that every token of a list is valid at its position, where the
  flag tells whether the first position is an operand position; \<open>at_positions\<close>
  selects the tokens at the positions whose flag is set.
\<close>

function tokens :: "string \<Rightarrow> string list" where
  "tokens line =
     (case strtok line of
        None \<Rightarrow> []
      | Some (token, rest) \<Rightarrow> token # tokens rest)"
  by pat_completeness auto
termination
proof -
  have shorter: "length r < length s" if a: "strtok s = Some (t, r)" for s t r
  proof -
    let ?s1 = "dropWhile (\<lambda>c. c = CHR '' '') s"
    let ?s2 = "dropWhile (\<lambda>c. c \<noteq> CHR '' '') ?s1"
    from a have ne: "?s1 \<noteq> []" and r: "r = drop 1 ?s2"
      by (auto simp: strtok_def Let_def split: if_splits)
    from ne have "hd ?s1 \<noteq> CHR '' ''"
      using hd_dropWhile by blast
    with ne have "length ?s2 < length ?s1"
      by (cases ?s1) (auto intro: le_imp_less_Suc length_dropWhile_le)
    moreover have "length ?s1 \<le> length s"
      by (rule length_dropWhile_le)
    ultimately show ?thesis
      using r by simp
  qed
  show ?thesis
    by (relation "measure length") (auto dest: shorter)
qed

declare tokens.simps [simp del]




text \<open>
  A line laid out with spaces: \<open>lead\<close> spaces, the first token, then each further
  token behind one space more than its gap says, then \<open>trail\<close> spaces.
\<close>

fun spaced :: "string \<Rightarrow> (nat \<times> string) list \<Rightarrow> string" where
  "spaced t [] = t"
| "spaced t ((gap, u) # r) = t @ replicate (Suc gap) (CHR '' '') @ spaced u r"

definition layout :: "nat \<Rightarrow> string \<Rightarrow> (nat \<times> string) list \<Rightarrow> nat \<Rightarrow> string" where
  "layout lead t r trail =
     replicate lead (CHR '' '') @ spaced t r @ replicate trail (CHR '' '')"

subsection \<open>The arrays and their counters\<close>

text \<open>
  Each array has the length its counter says: \<open>realloc\<close> gives \<open>operands\<close> and
  \<open>operators\<close> one element more with each token stored, and \<open>calloc\<close> gives
  \<open>evaluated\<close> \<open>num_operands\<close> elements.
\<close>

definition allocated :: "'a calc \<Rightarrow> bool" where
  "allocated s =
     (int (length (operands s)) = num_operands s
      \<and> int (length (operators s)) = num_operators s
      \<and> int (length (evaluated s)) = num_operands s)"

section \<open>Properties\<close>

subsection \<open>The counter of validOperand\<close>

lemma validOperand_loop_iff:
  "validOperand_loop n s =
     ((\<forall>c \<in> set s. isdigit c \<or> c = CHR ''.'')
      \<and> n + of_nat (count_list s (CHR ''.'')) \<le> 1)"
proof (induction s arbitrary: n)
  case Nil
  then show ?case by simp
next
  case (Cons c s)
  show ?case
  proof (cases "c = CHR ''.''")
    case True
    with Cons show ?thesis by (simp add: add.assoc)
  next
    case False
    with Cons show ?thesis by simp
  qed
qed

lemma count_list_replicate: "count_list (replicate n c) c = n"
  by (induction n) auto

subsection \<open>Tokens and the parsing loop\<close>

lemma tokens_Nil: "strtok line = None \<Longrightarrow> tokens line = []"
  by (simp add: tokens.simps)

lemma tokens_Cons: "strtok line = Some (t, rest) \<Longrightarrow> tokens line = t # tokens rest"
  by (simp add: tokens.simps)

lemma tokens_eq_Nil: "tokens line = [] \<Longrightarrow> strtok line = None"
  by (cases "strtok line") (auto simp: tokens.simps)

lemma tokens_eq_Cons:
  "tokens line = t # ts \<Longrightarrow> \<exists>rest. strtok line = Some (t, rest) \<and> tokens rest = ts"
  by (cases "strtok line") (auto simp: tokens.simps)



lemma realloc_fails_after_INT_MAX:
  "realloc_fails 8 (incr 2147483647) \<and> realloc_fails 1 (incr 2147483647)"
  by (simp add: realloc_fails_def incr_def)




text \<open>At \<open>INT_MAX\<close> operands the next operand ends the process.\<close>

lemma operand_overflow_exits:
  "strtok line = Some (token, rest) \<Longrightarrow> validOperand token \<Longrightarrow>
   num_operands s = 2147483647 \<Longrightarrow>
   parse_loop A line True s = Exits (stdout s @ [''Memory allocation error\<newline>''])"
  using realloc_fails_after_INT_MAX
  by (subst parse_loop.simps) (simp add: printAllocError_def printf_def)

lemma parse_loop_lengths:
  "int (length (operands s)) = num_operands s \<Longrightarrow>
   int (length (operators s)) = num_operators s \<Longrightarrow>
   parse_loop A line po s = Returns s' \<Longrightarrow>
   int (length (operands s')) = num_operands s'
   \<and> int (length (operators s')) = num_operators s'
   \<and> (\<not> error_occurred s' \<longrightarrow> stdout s' = stdout s)"
proof (induction A line po s rule: parse_loop.induct)
  case (1 A line po s)
  note step = 1(5) [unfolded parse_loop.simps [of A line po s]]
  show ?case
  proof (cases "strtok line")
    case None
    with step 1(3,4) show ?thesis by simp
  next
    case (Some p)
    obtain token rest where p: "p = (token, rest)" by (cases p)
    show ?thesis
    proof (cases po)
      case True
      show ?thesis
      proof (cases "validOperand token")
        case v: False
        with step Some p True 1(3,4) show ?thesis by (auto simp: printf_def)
      next
        case v: True
        show ?thesis
        proof (cases "realloc_fails 8 (incr (num_operands s))")
          case f: True
          with step Some p True v show ?thesis by simp
        next
          case f: False
          have nn: "0 \<le> num_operands s" using 1(3) by (metis of_nat_0_le_iff)
          have "num_operands s \<noteq> 2147483647"
            using f realloc_fails_after_INT_MAX by auto
          then have inc: "incr (num_operands s) = num_operands s + 1"
            by (simp add: incr_def)
          from step Some p True v f have
            "parse_loop A rest (\<not> po)
               (s\<lparr>num_operands := incr (num_operands s),
                  operands := operands s @ [atof A token]\<rparr>) = Returns s'"
            by simp
          from 1(1) [OF Some p [symmetric] True _ f _ _ this] v 1(3,4) inc
          show ?thesis by simp
        qed
      qed
    next
      case False
      show ?thesis
      proof (cases "validOperator token")
        case v: False
        with step Some p False 1(3,4) show ?thesis by (auto simp: printf_def)
      next
        case v: True
        show ?thesis
        proof (cases "realloc_fails 1 (incr (num_operators s))")
          case f: True
          with step Some p False v show ?thesis by simp
        next
          case f: False
          have "num_operators s \<noteq> 2147483647"
            using f realloc_fails_after_INT_MAX by auto
          then have inc: "incr (num_operators s) = num_operators s + 1"
            by (simp add: incr_def)
          from step Some p False v f have
            "parse_loop A rest (\<not> po)
               (s\<lparr>num_operators := incr (num_operators s),
                  operators := operators s @ [first_char token]\<rparr>) = Returns s'"
            by simp
          from 1(2) [OF Some p [symmetric] False _ f _ _ this] v 1(3,4) inc
          show ?thesis by simp
        qed
      qed
    qed
  qed
qed

subsection \<open>Array accesses stay inside the arrays\<close>

lemma indexOfOp_loop_bounds:
  "int (length ops) = n \<Longrightarrow> 0 \<le> i \<Longrightarrow>
   \<exists>r. indexOfOp_loop ops op n i = Some r
       \<and> (r = - 1 \<or> (i \<le> r \<and> r < n \<and> ops ! nat r = op))"
proof (induction ops op n i rule: indexOfOp_loop.induct)
  case (1 ops op n i)
  show ?case
  proof (cases "i < n")
    case False
    then show ?thesis by (subst indexOfOp_loop.simps) simp
  next
    case True
    with 1(2,3) have r: "rd ops i = Some (ops ! nat i)" by (simp add: rd_def)
    show ?thesis
    proof (cases "ops ! nat i = op")
      case eq: True
      with True r show ?thesis by (subst indexOfOp_loop.simps) simp
    next
      case ne: False
      from 1(1)[OF True r ne 1(2)] 1(3)
      obtain k where "indexOfOp_loop ops op n (i + 1) = Some k"
        and "k = - 1 \<or> (i + 1 \<le> k \<and> k < n \<and> ops ! nat k = op)"
        by auto
      with True r ne show ?thesis by (subst indexOfOp_loop.simps) auto
    qed
  qed
qed

lemma indexOfOp_bounds:
  "int (length ops) = n \<Longrightarrow>
   \<exists>r. indexOfOp ops op n = Some r \<and> (r = - 1 \<or> (0 \<le> r \<and> r < n \<and> ops ! nat r = op))"
  using indexOfOp_loop_bounds [of ops n 0 op] by (simp add: indexOfOp_def)

lemma propagate_length:
  "int (length flags) = n \<Longrightarrow> int (length vals) = n \<Longrightarrow> 0 \<le> j \<Longrightarrow>
   \<exists>vals'. propagate t flags n j vals = Some vals' \<and> length vals' = length vals"
proof (induction t flags n j vals rule: propagate.induct)
  case (1 t flags n j vals)
  show ?case
  proof (cases "j < n")
    case False
    then show ?thesis by (subst propagate.simps) simp
  next
    case True
    with 1(3,5) have r: "rd flags j = Some (flags ! nat j)" by (simp add: rd_def)
    show ?thesis
    proof (cases "flags ! nat j")
      case e: True
      from True 1(4,5) have w: "wr vals j t = Some (vals[nat j := t])" by (simp add: wr_def)
      from 1(1)[OF True r e w 1(3)] 1(4,5)
      obtain v where "propagate t flags n (j + 1) (vals[nat j := t]) = Some v"
        and "length v = length vals" by auto
      with True r e w show ?thesis by (subst propagate.simps) simp
    next
      case e: False
      from 1(2)[OF True r e 1(3,4)] 1(5)
      obtain v where "propagate t flags n (j + 1) vals = Some v"
        and "length v = length vals" by auto
      with True r e show ?thesis by (subst propagate.simps) simp
    qed
  qed
qed

lemma loop_body_ready:
  assumes al: "allocated s" and one: "num_operands s = num_operators s + 1"
  shows "\<exists>r. loop_body A op s = Some r \<and>
     (case r of
        Stop s' \<Rightarrow>
          s' = s \<or> s' = (printf ''Divide by zero error\<newline>'' s)\<lparr>error_occurred := True\<rparr>
      | Again s' \<Rightarrow>
          (\<exists>i vals. 0 \<le> i \<and> i < num_operators s \<and> operators s ! nat i = op
             \<and> length vals = length (operands s)
             \<and> s' = s\<lparr>evaluated := (evaluated s)[nat i := True, nat (i + 1) := True],
                      operands := vals,
                      operators := (operators s)[nat i := CHR 0x00]\<rparr>))"
proof -
  from al have lo: "int (length (operators s)) = num_operators s"
    and lv: "int (length (operands s)) = num_operands s"
    and le: "int (length (evaluated s)) = num_operands s"
    by (simp_all add: allocated_def)
  from indexOfOp_bounds [OF lo, of op]
  obtain i where ix: "indexOfOp (operators s) op (num_operators s) = Some i"
    and i: "i = - 1 \<or> (0 \<le> i \<and> i < num_operators s \<and> operators s ! nat i = op)"
    by blast
  show ?thesis
  proof (cases "i = - 1")
    case True
    with ix show ?thesis by (simp add: loop_body_def)
  next
    case False
    with i have i0: "0 \<le> i" and i1: "i < num_operators s" and iop: "operators s ! nat i = op"
      by auto
    have ra: "rd (operands s) i = Some (operands s ! nat i)"
      using i0 i1 lv one by (simp add: rd_def)
    have rb: "rd (operands s) (i + 1) = Some (operands s ! nat (i + 1))"
      using i0 i1 lv one by (simp add: rd_def)
    let ?t = "applyOp A (operands s ! nat i) (operands s ! nat (i + 1)) op"
    show ?thesis
    proof (cases "?t = DBL_MAX A")
      case True
      with ix False ra rb show ?thesis by (simp add: loop_body_def)
    next
      case ne: False
      let ?e1 = "(evaluated s)[nat i := True]"
      let ?e2 = "?e1[nat (i + 1) := True]"
      have w1: "wr (evaluated s) i True = Some ?e1"
        using i0 i1 le one by (simp add: wr_def)
      have w2: "wr ?e1 (i + 1) True = Some ?e2"
        using i0 i1 le one by (simp add: wr_def)
      have "int (length ?e2) = num_operands s" using le by simp
      from propagate_length [OF this lv, of 0 ?t]
      obtain vals where p: "propagate ?t ?e2 (num_operands s) 0 (operands s) = Some vals"
        and pl: "length vals = length (operands s)" by auto
      have w3: "wr (operators s) i (CHR 0x00) = Some ((operators s)[nat i := CHR 0x00])"
        using i0 i1 lo by (simp add: wr_def)
      from ix False ra rb ne w1 w2 p w3 have
        "loop_body A op s = Some (Again (s\<lparr>evaluated := ?e2, operands := vals,
            operators := (operators s)[nat i := CHR 0x00]\<rparr>))"
        by (simp add: loop_body_def)
      with i0 i1 iop pl show ?thesis by auto
    qed
  qed
qed

subsection \<open>The loops return\<close>

lemma count_list_update_less:
  "i < length xs \<Longrightarrow> xs ! i = x \<Longrightarrow> y \<noteq> x \<Longrightarrow>
   count_list (xs[i := y]) x < count_list xs x"
proof (induction xs arbitrary: i)
  case Nil
  then show ?case by simp
next
  case (Cons a xs)
  then show ?case by (cases i) auto
qed

lemma while_loop_total:
  assumes "allocated s" and "num_operands s = num_operators s + 1" and "op \<noteq> CHR 0x00"
  shows "\<exists>s'. while_loop A op s = Some (Some s') \<and> allocated s'
     \<and> num_operands s' = num_operands s \<and> num_operators s' = num_operators s
     \<and> (stdout s' = stdout s \<and> error_occurred s' = error_occurred s
        \<or> stdout s' = stdout s @ [''Divide by zero error\<newline>''] \<and> error_occurred s')"
  using assms
proof (induction "count_list (operators s) op" arbitrary: s rule: less_induct)
  case less
  from loop_body_ready [OF less(2,3), of A op]
  obtain r where lb: "loop_body A op s = Some r"
    and r: "case r of
        Stop s' \<Rightarrow>
          s' = s \<or> s' = (printf ''Divide by zero error\<newline>'' s)\<lparr>error_occurred := True\<rparr>
      | Again s' \<Rightarrow>
          (\<exists>i vals. 0 \<le> i \<and> i < num_operators s \<and> operators s ! nat i = op
             \<and> length vals = length (operands s)
             \<and> s' = s\<lparr>evaluated := (evaluated s)[nat i := True, nat (i + 1) := True],
                      operands := vals,
                      operators := (operators s)[nat i := CHR 0x00]\<rparr>)"
    by blast
  show ?case
  proof (cases r)
    case (Stop s')
    with lb have w: "while_loop A op s = Some (Some s')"
      by (subst while_loop.simps) simp
    from r Stop have "s' = s \<or> s' = (printf ''Divide by zero error\<newline>'' s)\<lparr>error_occurred := True\<rparr>"
      by simp
    with less(2) w show ?thesis
      by (auto simp: allocated_def printf_def)
  next
    case (Again s')
    with lb have w: "while_loop A op s = while_loop A op s'"
      by (subst while_loop.simps) simp
    from r Again obtain i vals where i: "0 \<le> i" "i < num_operators s"
      and iop: "operators s ! nat i = op"
      and lv: "length vals = length (operands s)"
      and s': "s' = s\<lparr>evaluated := (evaluated s)[nat i := True, nat (i + 1) := True],
                      operands := vals,
                      operators := (operators s)[nat i := CHR 0x00]\<rparr>"
      by auto
    from less(2) have lo: "int (length (operators s)) = num_operators s"
      by (simp add: allocated_def)
    with i have "nat i < length (operators s)" by simp
    from count_list_update_less [OF this iop, of "CHR 0x00"] less(4)
    have dec: "count_list (operators s') op < count_list (operators s) op"
      by (simp add: s')
    have al: "allocated s'" using less(2) lv by (simp add: s' allocated_def)
    have one: "num_operands s' = num_operators s' + 1" using less(3) by (simp add: s')
    from less(1) [OF dec al one less(4)] w show ?thesis
      by (simp add: s')
  qed
qed

lemma for_loop_total:
  assumes "allocated s" and "num_operands s = num_operators s + 1"
    and "CHR 0x00 \<notin> set ops"
  shows "\<exists>s'. for_loop A ops s = Some (Some s') \<and> allocated s'
     \<and> num_operands s' = num_operands s \<and> num_operators s' = num_operators s
     \<and> (\<not> error_occurred s \<longrightarrow>
          stdout s' = stdout s \<and> \<not> error_occurred s'
          \<or> stdout s' = stdout s @ [''Divide by zero error\<newline>''] \<and> error_occurred s')"
  using assms
proof (induction ops arbitrary: s)
  case Nil
  then show ?case by simp
next
  case (Cons op ops)
  from Cons(4) have op: "op \<noteq> CHR 0x00" and rest: "CHR 0x00 \<notin> set ops" by auto
  from while_loop_total [OF Cons(2,3) op, of A]
  obtain s1 where w: "while_loop A op s = Some (Some s1)" and al: "allocated s1"
    and n1: "num_operands s1 = num_operands s" and n2: "num_operators s1 = num_operators s"
    and out: "stdout s1 = stdout s \<and> error_occurred s1 = error_occurred s
        \<or> stdout s1 = stdout s @ [''Divide by zero error\<newline>''] \<and> error_occurred s1"
    by blast
  show ?case
  proof (cases "error_occurred s1")
    case True
    with w al n1 n2 out show ?thesis by auto
  next
    case False
    with out have same: "stdout s1 = stdout s" by auto
    from Cons(3) n1 n2 have one: "num_operands s1 = num_operators s1 + 1" by simp
    from Cons(1) [OF al one rest] w False n1 n2 same show ?thesis
      by auto
  qed
qed

subsection \<open>What a call of evalExpression can do\<close>

lemma parse_ready:
  "parse A line = Returns s \<Longrightarrow> \<not> error_occurred s \<Longrightarrow>
   allocated s \<and> num_operands s = num_operators s + 1 \<and> stdout s = []"
proof -
  assume p: "parse A line = Returns s" and ne: "\<not> error_occurred s"
  from p obtain s0 where pl: "parse_loop A line True init = Returns s0"
    and s: "s = calloc_evaluated (check_structure s0)"
    by (auto simp: parse_def split: ending.splits)
  have "int (length (operands (init :: 'a calc))) = num_operands (init :: 'a calc)"
    and "int (length (operators (init :: 'a calc))) = num_operators (init :: 'a calc)"
    by (simp_all add: init_def)
  from parse_loop_lengths [OF this pl]
  have l: "int (length (operands s0)) = num_operands s0"
    "int (length (operators s0)) = num_operators s0"
    "\<not> error_occurred s0 \<longrightarrow> stdout s0 = stdout (init :: 'a calc)" by simp_all
  with ne s show ?thesis
    by (auto simp: check_structure_def calloc_evaluated_def allocated_def init_def
        printf_def split: if_splits)
qed

lemma order_of_ops_no_sentinel: "CHR 0x00 \<notin> set order_of_ops"
  by (simp add: order_of_ops_def)

lemma evalExpression_cases:
  "(\<exists>out. parse A line = Exits out \<and> evalExpression A line r = Some (Some (Exits out)))
   \<or> (\<exists>s. parse A line = Returns s \<and> error_occurred s \<and>
      evalExpression A line r =
        Some (Some (Returns \<lparr>returned = False, result_after = r, printed = stdout s\<rparr>)))
   \<or> (\<exists>s. parse A line = Returns s \<and> \<not> error_occurred s \<and>
      evalExpression A line r =
        Some (Some (Returns \<lparr>returned = False, result_after = zero A,
                    printed = [''Divide by zero error\<newline>'']\<rparr>)))
   \<or> (\<exists>s. parse A line = Returns s \<and> \<not> error_occurred s \<and>
      (\<exists>v. evalExpression A line r =
        Some (Some (Returns \<lparr>returned = True, result_after = v, printed = []\<rparr>))))"
proof (cases "parse A line")
  case (Exits out)
  then show ?thesis by (simp add: evalExpression_def)
next
  case (Returns s)
  show ?thesis
  proof (cases "error_occurred s")
    case True
    with Returns show ?thesis by (simp add: evalExpression_def)
  next
    case False
    from parse_ready [OF Returns False] have al: "allocated s"
      and one: "num_operands s = num_operators s + 1"
      and out: "stdout s = []" by auto
    from for_loop_total [OF al one order_of_ops_no_sentinel, of A] False
    obtain s' where f: "for_loop A order_of_ops s = Some (Some s')"
      and al': "allocated s'"
      and n1: "num_operands s' = num_operands s"
      and n2: "num_operators s' = num_operators s"
      and o: "stdout s' = stdout s \<and> \<not> error_occurred s'
          \<or> stdout s' = stdout s @ [''Divide by zero error\<newline>'']
            \<and> error_occurred s'"
      by blast
    show ?thesis
    proof (cases "error_occurred s'")
      case True
      with o out f False Returns show ?thesis by (auto simp: evalExpression_def)
    next
      case e: False
      from al' one n1 n2 have "0 < int (length (operands s'))"
        by (simp add: allocated_def)
      then have "rd (operands s') 0 = Some (operands s' ! 0)" by (simp add: rd_def)
      with e o out f False Returns show ?thesis by (auto simp: evalExpression_def)
    qed
  qed
qed

subsection \<open>A round that goes on clears one operator slot\<close>

lemma indexOfOp_loop_found:
  "indexOfOp_loop ops op n i = Some r \<Longrightarrow> r \<noteq> - 1 \<Longrightarrow> rd ops r = Some op"
proof (induction ops op n i rule: indexOfOp_loop.induct)
  case (1 ops op n i)
  from 1(2) have u: "(if i < n then
        (case rd ops i of
           None \<Rightarrow> None
         | Some c \<Rightarrow> if c = op then Some i else indexOfOp_loop ops op n (i + 1))
      else Some (- 1)) = Some r"
    by (subst (asm) indexOfOp_loop.simps)
  show ?case
  proof (cases "i < n")
    case False
    with u 1(3) show ?thesis by simp
  next
    case True
    with u obtain c where c: "rd ops i = Some c" by (cases "rd ops i") auto
    show ?thesis
    proof (cases "c = op")
      case eq: True
      with u True c show ?thesis by simp
    next
      case ne: False
      with u True c have "indexOfOp_loop ops op n (i + 1) = Some r" by simp
      from 1(1) [OF True c ne this 1(3)] show ?thesis .
    qed
  qed
qed

lemma loop_body_Again:
  assumes "loop_body A op s = Some (Again s')"
  shows "\<exists>i. 0 \<le> i \<and> nat i < length (operators s) \<and> operators s ! nat i = op
     \<and> operators s' = (operators s)[nat i := CHR 0x00]"
proof -
  from assms obtain i ops where ix: "indexOfOp (operators s) op (num_operators s) = Some i"
    and ne: "i \<noteq> - 1"
    and w: "wr (operators s) i (CHR 0x00) = Some ops"
    and s': "operators s' = ops"
    by (auto simp: loop_body_def Let_def split: bind_splits if_splits)
  from indexOfOp_loop_found [OF ix [unfolded indexOfOp_def] ne]
  have "rd (operators s) i = Some op" .
  with w s' show ?thesis
    by (auto simp: rd_def wr_def split: if_splits)
qed

lemma filter_update_less:
  "i < length xs \<Longrightarrow> P (xs ! i) \<Longrightarrow> \<not> P y \<Longrightarrow>
   length (filter P (xs[i := y])) < length (filter P xs)"
proof (induction xs arbitrary: i)
  case Nil
  then show ?case by simp
next
  case (Cons a xs)
  then show ?case by (cases i) auto
qed

subsection \<open>Lines laid out with spaces\<close>

lemma strtok_spaces: "strtok (replicate n (CHR '' '')) = None"
  by (simp add: strtok_def)

lemma dropWhile_spaces:
  "t \<noteq> [] \<Longrightarrow> CHR '' '' \<notin> set t \<Longrightarrow>
   dropWhile (\<lambda>c. c = CHR '' '') (replicate n (CHR '' '') @ t @ rest) = t @ rest"
  by (cases t) (auto simp: dropWhile_append)

lemma scan_token_end:
  "CHR '' '' \<notin> set t \<Longrightarrow>
   takeWhile (\<lambda>c. c \<noteq> CHR '' '') t = t \<and> dropWhile (\<lambda>c. c \<noteq> CHR '' '') t = []"
  by (induction t) auto

lemma scan_token_space:
  "CHR '' '' \<notin> set t \<Longrightarrow>
   takeWhile (\<lambda>c. c \<noteq> CHR '' '') (t @ CHR '' '' # rest) = t
   \<and> dropWhile (\<lambda>c. c \<noteq> CHR '' '') (t @ CHR '' '' # rest) = CHR '' '' # rest"
  by (induction t) auto

lemma strtok_token_end:
  assumes "t \<noteq> []" and "CHR '' '' \<notin> set t"
  shows "strtok (replicate n (CHR '' '') @ t) = Some (t, [])"
proof -
  from dropWhile_spaces [OF assms, of n "[]"]
  have d: "dropWhile (\<lambda>c. c = CHR '' '') (replicate n (CHR '' '') @ t) = t" by simp
  from scan_token_end [OF assms(2)]
  have tw: "takeWhile (\<lambda>c. c \<noteq> CHR '' '') t = t"
    and dw: "dropWhile (\<lambda>c. c \<noteq> CHR '' '') t = []" by simp_all
  show ?thesis
    unfolding strtok_def Let_def d tw dw using assms(1) by simp
qed

lemma strtok_token_space:
  assumes "t \<noteq> []" and "CHR '' '' \<notin> set t"
  shows "strtok (replicate n (CHR '' '') @ t @ CHR '' '' # rest) = Some (t, rest)"
proof -
  from dropWhile_spaces [OF assms, of n "CHR '' '' # rest"]
  have d: "dropWhile (\<lambda>c. c = CHR '' '') ((replicate n (CHR '' '') @ t) @ CHR '' '' # rest)
      = t @ CHR '' '' # rest" by simp
  from scan_token_space [OF assms(2), of rest]
  have tw: "takeWhile (\<lambda>c. c \<noteq> CHR '' '') (t @ CHR '' '' # rest) = t"
    and dw: "dropWhile (\<lambda>c. c \<noteq> CHR '' '') (t @ CHR '' '' # rest) = CHR '' '' # rest"
    by simp_all
  have "strtok ((replicate n (CHR '' '') @ t) @ CHR '' '' # rest) = Some (t, rest)"
    unfolding strtok_def Let_def d tw dw using assms(1) by simp
  then show ?thesis by simp
qed

lemma tokens_spaces: "tokens (replicate n (CHR '' '')) = []"
  by (simp add: tokens_Nil strtok_spaces)

lemma tokens_spaced:
  "\<forall>u \<in> set (t # map snd r). u \<noteq> [] \<and> CHR '' '' \<notin> set u \<Longrightarrow>
   tokens (replicate n (CHR '' '') @ spaced t r @ replicate trail (CHR '' '')) = t # map snd r"
proof (induction r arbitrary: t n)
  case Nil
  then have t: "t \<noteq> []" "CHR '' '' \<notin> set t" by auto
  show ?case
  proof (cases trail)
    case 0
    with strtok_token_end [OF t, of n] show ?thesis
      by (simp add: tokens_Cons tokens_Nil strtok_def)
  next
    case (Suc k)
    with strtok_token_space [OF t, of n "replicate k (CHR '' '')"] show ?thesis
      by (simp add: tokens_Cons tokens_spaces)
  qed
next
  case (Cons p r)
  obtain gap u where p: "p = (gap, u)" by (cases p)
  from Cons(2) have t: "t \<noteq> []" "CHR '' '' \<notin> set t" by auto
  from Cons(2) p have rest: "\<forall>v \<in> set (u # map snd r). v \<noteq> [] \<and> CHR '' '' \<notin> set v"
    by auto
  from strtok_token_space [OF t, of n
      "replicate gap (CHR '' '') @ spaced u r @ replicate trail (CHR '' '')"]
  have "tokens (replicate n (CHR '' '') @ spaced t (p # r) @ replicate trail (CHR '' ''))
      = t # tokens (replicate gap (CHR '' '') @ spaced u r @ replicate trail (CHR '' ''))"
    by (simp add: p tokens_Cons)
  with Cons(1) [OF rest, of gap] p show ?case by simp
qed

lemma parse_loop_tokens:
  "tokens l1 = tokens l2 \<Longrightarrow> parse_loop A l1 po s = parse_loop A l2 po s"
proof (induction "tokens l1" arbitrary: l1 l2 po s)
  case Nil
  then have "strtok l1 = None" and "strtok l2 = None"
    by (simp_all add: tokens_eq_Nil)
  then show ?case by (simp add: parse_loop.simps)
next
  case (Cons t ts)
  from Cons(2) [symmetric] obtain r1 where s1: "strtok l1 = Some (t, r1)" and t1: "ts = tokens r1"
    using tokens_eq_Cons by blast
  from Cons(2) Cons(3) have "tokens l2 = t # ts" by simp
  then obtain r2 where s2: "strtok l2 = Some (t, r2)" and t2: "tokens r2 = ts"
    using tokens_eq_Cons by blast
  from t1 t2 have eq: "tokens r1 = tokens r2" by simp
  note IH = Cons(1) [OF t1 eq]
  show ?case
    by (subst parse_loop.simps, subst (2) parse_loop.simps) (simp add: s1 s2 IH)
qed

lemma evalExpression_tokens:
  "tokens l1 = tokens l2 \<Longrightarrow> evalExpression A l1 r = evalExpression A l2 r"
  by (simp add: evalExpression_def parse_def parse_loop_tokens [of l1 l2])

subsection \<open>A division by a divisor below DBL_EPSILON stops the evaluation\<close>

lemma tiny_divisor_stops:
  assumes "indexOfOp (operators s) (CHR ''/'') (num_operators s) = Some i" and "i \<noteq> - 1"
    and "rd (operands s) i = Some a" and "rd (operands s) (i + 1) = Some b"
    and "fabs_lt_eps A b"
  shows "loop_body A (CHR ''/'') s =
     Some (Stop ((printf ''Divide by zero error\<newline>'' s)\<lparr>error_occurred := True\<rparr>))"
  using assms by (simp add: loop_body_def applyOp_def)

section \<open>The claims\<close>

subsection \<open>Running the program on concrete lines\<close>

lemmas run_simps =
  evalExpression_def parse_def parse_loop.simps incr_def realloc_fails_def
  printAllocError_def strtok_def validOperand_def
  validOperator_def isdigit_def check_structure_def calloc_evaluated_def init_def
  printf_def first_char_def exact_arith_def atof_exact_def decimal_def digit_val_def
  order_of_ops_def while_loop.simps loop_body_def indexOfOp_def indexOfOp_loop.simps
  rd_def wr_def propagate.simps applyOp_def Let_def

lemma precedence_examples:
  "evalExpression exact_arith ''2 + 3 * 4'' 0 =
     Some (Some (Returns \<lparr>returned = True, result_after = 14, printed = []\<rparr>))"
  "evalExpression exact_arith ''2 * 3 + 4'' 0 =
     Some (Some (Returns \<lparr>returned = True, result_after = 10, printed = []\<rparr>))"
  by (simp_all add: run_simps)

lemma division_by_zero_example:
  "evalExpression exact_arith ''5 / 0'' 7 =
     Some (Some (Returns \<lparr>returned = False, result_after = 0,
                  printed = [''Divide by zero error\<newline>'']\<rparr>))"
  by (simp add: run_simps)

text \<open>
  C1 (the code departs from the claim). The claim: a valid expression evaluates to its
  value under two-tier precedence, \<open>*\<close> and \<open>/\<close> before \<open>+\<close> and \<open>-\<close>, left to
  right inside a tier. The program returns 24 for \<open>1 * 2 + 3 * 4\<close>, whose value is
  14: after the second product every slot marked \<open>evaluated\<close>, also those of the
  first product, is overwritten with 12. It returns 4/3 for \<open>8 / 2 * 3\<close>, whose
  value is 12: every \<open>*\<close> is applied before any \<open>/\<close>.
\<close>

theorem precedence_violated:
  "evalExpression exact_arith ''1 * 2 + 3 * 4'' 0 =
     Some (Some (Returns \<lparr>returned = True, result_after = 24, printed = []\<rparr>))
   \<and> standard_value exact_arith 1 [(CHR ''*'', 2), (CHR ''+'', 3), (CHR ''*'', 4)] = 14
   \<and> evalExpression exact_arith ''8 / 2 * 3'' 0 =
     Some (Some (Returns \<lparr>returned = True, result_after = 4 / 3, printed = []\<rparr>))
   \<and> standard_value exact_arith 8 [(CHR ''/'', 2), (CHR ''*'', 3)] = 12"
proof (intro conjI)
  show "evalExpression exact_arith ''1 * 2 + 3 * 4'' 0 =
     Some (Some (Returns \<lparr>returned = True, result_after = 24, printed = []\<rparr>))"
    by (simp add: run_simps)
  show "evalExpression exact_arith ''8 / 2 * 3'' 0 =
     Some (Some (Returns \<lparr>returned = True, result_after = 4 / 3, printed = []\<rparr>))"
    by (simp add: run_simps)
  show "standard_value exact_arith 1 [(CHR ''*'', 2), (CHR ''+'', 3), (CHR ''*'', 4)] = 14"
    by (simp add: standard_value_def applyOp_def exact_arith_def)
  show "standard_value exact_arith 8 [(CHR ''/'', 2), (CHR ''*'', 3)] = 12"
    by (simp add: standard_value_def applyOp_def exact_arith_def)
qed

text \<open>
  C2 (the code departs from the claim). The claim: an expression with only \<open>+\<close> and
  \<open>-\<close> evaluates to the left-to-right fold of its operands, and \<open>10 - 3 - 2\<close> to 5.
  The program does return 5 for \<open>10 - 3 - 2\<close>, but it also returns 5 for
  \<open>10 - 3 + 2\<close>, whose fold is 9: every \<open>+\<close> is applied before any \<open>-\<close>.
\<close>

theorem plus_minus_not_left_to_right:
  "evalExpression exact_arith ''10 - 3 - 2'' 0 =
     Some (Some (Returns \<lparr>returned = True, result_after = 5, printed = []\<rparr>))
   \<and> evalExpression exact_arith ''10 - 3 + 2'' 0 =
     Some (Some (Returns \<lparr>returned = True, result_after = 5, printed = []\<rparr>))
   \<and> left_fold exact_arith 10 [(CHR ''-'', 3), (CHR ''+'', 2)] = 9"
proof (intro conjI)
  show "evalExpression exact_arith ''10 - 3 - 2'' 0 =
     Some (Some (Returns \<lparr>returned = True, result_after = 5, printed = []\<rparr>))"
    by (simp add: run_simps)
  show "evalExpression exact_arith ''10 - 3 + 2'' 0 =
     Some (Some (Returns \<lparr>returned = True, result_after = 5, printed = []\<rparr>))"
    by (simp add: run_simps)
  show "left_fold exact_arith 10 [(CHR ''-'', 3), (CHR ''+'', 2)] = 9"
    by (simp add: applyOp_def exact_arith_def)
qed

text \<open>
  C3 (the code departs from the claim). The claim: the divide-by-zero failure arises
  if and only if a \<open>/\<close> is applied to a divisor below \<open>DBL_EPSILON\<close>. \<open>applyOp\<close>
  signals that case by returning \<open>DBL_MAX\<close>, and \<open>evalExpression\<close> takes every
  result equal to \<open>DBL_MAX\<close> for the signal. The line below holds the decimal
  expansion of \<open>DBL_MAX\<close>, a valid operand, and adds 0 to it: no \<open>/\<close> occurs,
  the sum is \<open>DBL_MAX\<close>, and the program reports a division by zero.
\<close>

theorem divide_by_zero_without_division:
  "evalExpression exact_arith
     ''179769313486231570814527423731704356798070567525844996598917476803157260780028538760589558632766878171540458953514382464234321326889464182768467546703537516986049910576551282076245490090389328944075868508455133942304583236903222948165808559332123348274797826204144723168738177180919299881250404026184124858368 + 0'' 7 =
     Some (Some (Returns \<lparr>returned = False, result_after = 0,
                  printed = [''Divide by zero error\<newline>'']\<rparr>))"
  by (simp add: run_simps)

text \<open>
  C4 (the code departs from the claim). The claim, and the comment above
  \<open>evalExpression\<close>: after a failure \<open>*result\<close> holds 0.0. The assignment to
  \<open>*result\<close> sits inside \<open>if (!error_occurred)\<close>, so after an invalid operand, an
  invalid operator or a missing last operand \<open>*result\<close> keeps what it held before
  the call, here 7. Only a division by zero stores 0.
\<close>

theorem result_not_zeroed_on_failure:
  "evalExpression exact_arith ''x'' 7 =
     Some (Some (Returns \<lparr>returned = False, result_after = 7,
                  printed = [''Invalid operand: x\<newline>'']\<rparr>))
   \<and> evalExpression exact_arith ''3 x'' 7 =
     Some (Some (Returns \<lparr>returned = False, result_after = 7,
                  printed = [''Invalid operator: x\<newline>'']\<rparr>))
   \<and> evalExpression exact_arith ''3 +'' 7 =
     Some (Some (Returns \<lparr>returned = False, result_after = 7,
                  printed = [''Missing last operand\<newline>'']\<rparr>))"
  by (simp add: run_simps)

subsection \<open>validOperand\<close>

text \<open>
  What \<open>validOperand\<close> computes: the counter holds the number of points modulo
  \<open>2 ^ 32\<close>.
\<close>

lemma validOperand_exact:
  "validOperand s =
     ((\<forall>c \<in> set s. isdigit c \<or> c = CHR ''.'') \<and> count_list s (CHR ''.'') mod 2 ^ 32 \<le> 1)"
proof -
  have "((of_nat k :: 32 word) \<le> 1) = (k mod 2 ^ 32 \<le> 1)" for k :: nat
    by (simp add: word_le_nat_alt unat_of_nat)
  then show ?thesis
    by (simp add: validOperand_def validOperand_loop_iff)
qed

lemma validOperand_examples:
  "validOperand ''.''" "validOperand ''3.25''" "\<not> validOperand ''1.2.3''"
  "\<not> validOperand ''12a''" "validOperand ''''"
  by (simp_all add: validOperand_exact isdigit_def)

text \<open>
  C6 (the code departs from the claim). The claim, and the comment above
  \<open>validOperand\<close>: a string is accepted if and only if every character is an ASCII
  digit or a point and there is at most one point; so the lone point is accepted. The
  counter \<open>num_dec\<close> is an \<open>unsigned int\<close> and wraps around unguarded: on a token
  of \<open>2 ^ 32\<close> points it is back at 0 at the end of the token, and the token is
  accepted although it holds more than one point.
\<close>

theorem validOperand_wraps:
  "validOperand (replicate (2 ^ 32) (CHR ''.''))
   \<and> \<not> count_list (replicate (2 ^ 32) (CHR ''.'')) (CHR ''.'') \<le> 1"
  by (simp add: validOperand_def validOperand_loop_iff count_list_replicate word_le_nat_alt)

subsection \<open>Parsing\<close>





subsection \<open>Evaluation\<close>

text \<open>
  C9. In a state where each array has the length its counter says and
  \<open>num_operands = num_operators + 1\<close>, as after the structural check, every array
  access of the evaluation is inside its array: \<open>indexOfOp\<close> returns \<open>-1\<close> or
  an index \<open>i\<close> with \<open>0 \<le> i < num_operators\<close>; for every such index
  \<open>operands[i]\<close>, \<open>operands[i + 1]\<close>, \<open>evaluated[i]\<close> and \<open>evaluated[i + 1]\<close>
  exist; a round of the loop makes no access outside an array and leaves a state of
  the same kind; the loops over all four symbols make none and end in a state where
  \<open>operands[0]\<close> exists; and no call of \<open>evalExpression\<close> makes one.
\<close>

theorem array_accesses_in_bounds:
  assumes "allocated s" and "num_operands s = num_operators s + 1"
  shows "(\<exists>i. indexOfOp (operators s) op (num_operators s) = Some i
            \<and> (i = - 1 \<or> 0 \<le> i \<and> i < num_operators s))
     \<and> (\<forall>i. 0 \<le> i \<and> i < num_operators s \<longrightarrow>
            rd (operands s) i \<noteq> None \<and> rd (operands s) (i + 1) \<noteq> None
            \<and> wr (evaluated s) i True \<noteq> None \<and> wr (evaluated s) (i + 1) True \<noteq> None)
     \<and> (\<exists>rnd. loop_body A op s = Some rnd
            \<and> (\<forall>s'. rnd = Again s' \<longrightarrow> allocated s' \<and> num_operands s' = num_operators s' + 1))
     \<and> (\<exists>s'. for_loop A order_of_ops s = Some (Some s') \<and> rd (operands s') 0 \<noteq> None)
     \<and> evalExpression A line r \<noteq> Some None"
proof (intro conjI)
  from assms(1) have lo: "int (length (operators s)) = num_operators s"
    and lv: "int (length (operands s)) = num_operands s"
    and le: "int (length (evaluated s)) = num_operands s"
    by (simp_all add: allocated_def)
  from indexOfOp_bounds [OF lo, of op]
  show "\<exists>i. indexOfOp (operators s) op (num_operators s) = Some i
            \<and> (i = - 1 \<or> 0 \<le> i \<and> i < num_operators s)"
    by blast
  from lv le assms(2)
  show "\<forall>i. 0 \<le> i \<and> i < num_operators s \<longrightarrow>
            rd (operands s) i \<noteq> None \<and> rd (operands s) (i + 1) \<noteq> None
            \<and> wr (evaluated s) i True \<noteq> None \<and> wr (evaluated s) (i + 1) True \<noteq> None"
    by (simp add: rd_def wr_def)
  from loop_body_ready [OF assms, of A op]
  obtain rnd where lb: "loop_body A op s = Some rnd"
    and rnd: "case rnd of
        Stop s' \<Rightarrow>
          s' = s \<or> s' = (printf ''Divide by zero error\<newline>'' s)\<lparr>error_occurred := True\<rparr>
      | Again s' \<Rightarrow>
          (\<exists>i vals. 0 \<le> i \<and> i < num_operators s \<and> operators s ! nat i = op
             \<and> length vals = length (operands s)
             \<and> s' = s\<lparr>evaluated := (evaluated s)[nat i := True, nat (i + 1) := True],
                      operands := vals,
                      operators := (operators s)[nat i := CHR 0x00]\<rparr>)"
    by blast
  have "allocated s' \<and> num_operands s' = num_operators s' + 1" if "rnd = Again s'" for s'
    using rnd that assms by (auto simp: allocated_def)
  with lb show "\<exists>rnd. loop_body A op s = Some rnd
            \<and> (\<forall>s'. rnd = Again s' \<longrightarrow> allocated s' \<and> num_operands s' = num_operators s' + 1)"
    by blast
  from for_loop_total [OF assms order_of_ops_no_sentinel, of A]
  obtain s' where f: "for_loop A order_of_ops s = Some (Some s')" and al: "allocated s'"
    and n1: "num_operands s' = num_operands s" and n2: "num_operators s' = num_operators s"
    by blast
  from al n1 n2 assms(2) lo have "0 < int (length (operands s'))"
    by (simp add: allocated_def)
  then have "rd (operands s') 0 \<noteq> None" by (simp add: rd_def)
  with f show "\<exists>s'. for_loop A order_of_ops s = Some (Some s') \<and> rd (operands s') 0 \<noteq> None"
    by blast
  from evalExpression_cases [of A line r]
  show "evalExpression A line r \<noteq> Some None" by auto
qed

theorem array_accesses_in_bounds_witness:
  "allocated \<lparr>operands = [2, 3, 4 :: real], operators = ''+*'',
              evaluated = [False, False, False], num_operands = 3, num_operators = 2,
              error_occurred = False, stdout = []\<rparr>
   \<and> indexOfOp ''+*'' (CHR ''*'') 2 = Some 1
   \<and> rd [2, 3, 4 :: real] 1 = Some 3 \<and> rd [2, 3, 4 :: real] (1 + 1) = Some 4
   \<and> (\<exists>s'. for_loop exact_arith order_of_ops
               \<lparr>operands = [2, 3, 4], operators = ''+*'',
                evaluated = [False, False, False], num_operands = 3, num_operators = 2,
                error_occurred = False, stdout = []\<rparr> = Some (Some s')
             \<and> rd (operands s') 0 \<noteq> None)"
proof -
  let ?s = "\<lparr>operands = [2, 3, 4 :: real], operators = ''+*'',
              evaluated = [False, False, False], num_operands = 3, num_operators = 2,
              error_occurred = False, stdout = []\<rparr>"
  have a: "allocated ?s" by (simp add: allocated_def)
  have b: "num_operands ?s = num_operators ?s + 1" by simp
  have c: "indexOfOp ''+*'' (CHR ''*'') 2 = Some 1"
    by (simp add: indexOfOp_def indexOfOp_loop.simps rd_def)
  from array_accesses_in_bounds [OF a b, of "CHR ''*''" exact_arith "''2 + 3 * 4''" 0] a c
  show ?thesis by (simp add: rd_def)
qed

text \<open>
  C10. Evaluation terminates on every line. The value 0 that marks an applied operator
  is none of the four symbols; a round of the loop that applies an operation
  lowers the number of slots that hold the current symbol, and the number of slots
  that hold any operator at all, so each operator is applied at most once; and every
  call of \<open>evalExpression\<close> returns.
\<close>

theorem evaluation_terminates:
  "CHR 0x00 \<notin> set order_of_ops
   \<and> (\<forall>s'. op \<in> set order_of_ops \<and> loop_body A op s = Some (Again s') \<longrightarrow>
          count_list (operators s') op < count_list (operators s) op
          \<and> length (filter (\<lambda>c. c \<noteq> CHR 0x00) (operators s'))
              < length (filter (\<lambda>c. c \<noteq> CHR 0x00) (operators s)))
   \<and> (\<exists>y. evalExpression A line r = Some y)"
proof (intro conjI allI impI)
  show "CHR 0x00 \<notin> set order_of_ops" by (rule order_of_ops_no_sentinel)
next
  fix s'
  assume a: "op \<in> set order_of_ops \<and> loop_body A op s = Some (Again s')"
  with order_of_ops_no_sentinel have op: "CHR 0x00 \<noteq> op" by auto
  from a loop_body_Again obtain i where i: "nat i < length (operators s)"
    and iop: "operators s ! nat i = op"
    and s': "operators s' = (operators s)[nat i := CHR 0x00]"
    by blast
  from count_list_update_less [OF i iop op]
  show "count_list (operators s') op < count_list (operators s) op"
    by (simp add: s')
  from op iop have "operators s ! nat i \<noteq> CHR 0x00" by simp
  from filter_update_less [of "nat i" "operators s" "\<lambda>c. c \<noteq> CHR 0x00", OF i this]
  show "length (filter (\<lambda>c. c \<noteq> CHR 0x00) (operators s'))
          < length (filter (\<lambda>c. c \<noteq> CHR 0x00) (operators s))"
    by (simp add: s')
next
  from evalExpression_cases [of A line r]
  show "\<exists>y. evalExpression A line r = Some y" by auto
qed

theorem evaluation_terminates_witness:
  "CHR ''-'' \<in> set order_of_ops
   \<and> loop_body exact_arith (CHR ''-'')
        \<lparr>operands = [10, 3, 2], operators = ''--'', evaluated = [False, False, False],
         num_operands = 3, num_operators = 2, error_occurred = False, stdout = []\<rparr>
      = Some (Again
        \<lparr>operands = [7, 7, 2], operators = [CHR 0x00, CHR ''-''],
         evaluated = [True, True, False],
         num_operands = 3, num_operators = 2, error_occurred = False, stdout = []\<rparr>)
   \<and> count_list [CHR 0x00, CHR ''-''] (CHR ''-'') < count_list ''--'' (CHR ''-'')
   \<and> (\<exists>y. evalExpression exact_arith ''10 - 3 - 2'' 0 = Some y)"
proof -
  let ?s = "\<lparr>operands = [10, 3, 2 :: real], operators = ''--'',
             evaluated = [False, False, False],
             num_operands = 3, num_operators = 2, error_occurred = False, stdout = []\<rparr>"
  let ?s' = "\<lparr>operands = [7, 7, 2 :: real], operators = [CHR 0x00, CHR ''-''],
         evaluated = [True, True, False],
         num_operands = 3, num_operators = 2, error_occurred = False, stdout = []\<rparr>"
  have m: "CHR ''-'' \<in> set order_of_ops" by (simp add: order_of_ops_def)
  have lb: "loop_body exact_arith (CHR ''-'') ?s = Some (Again ?s')"
    by (simp add: loop_body_def indexOfOp_def indexOfOp_loop.simps rd_def wr_def
        propagate.simps applyOp_def exact_arith_def)
  from evaluation_terminates [of "CHR ''-''" exact_arith ?s "''10 - 3 - 2''" 0] m lb
  show ?thesis by simp
qed

subsection \<open>The tokenizer\<close>

text \<open>
  C7 (amended). The claim speaks of whitespace of any kind; \<open>strtok\<close> is called
  with the delimiter string \<open>" "\<close>, so only the space character separates tokens.
  Amended: the tokenizer splits a line at runs of one or more space characters and
  tolerates spaces before the first and behind the last token, so that two lines that
  hold the same tokens and differ only in the number of spaces evaluate identically;
  a line of spaces alone evaluates as the empty line does.
\<close>

theorem spacing_does_not_matter:
  assumes "\<forall>u \<in> set (t # us). u \<noteq> [] \<and> CHR '' '' \<notin> set u"
    and "length gaps = length us" and "length gaps' = length us"
  shows "tokens (layout lead t (zip gaps us) trail) = t # us
     \<and> evalExpression A (layout lead t (zip gaps us) trail) r
         = evalExpression A (layout lead' t (zip gaps' us) trail') r
     \<and> tokens (replicate lead (CHR '' '')) = []
     \<and> evalExpression A (replicate lead (CHR '' '')) r = evalExpression A [] r"
proof -
  have tk: "tokens (layout n t (zip g us) k) = t # us" if "length g = length us" for n g k
  proof -
    from that have m: "map snd (zip g us) = us" by simp
    with assms(1) have "\<forall>u \<in> set (t # map snd (zip g us)). u \<noteq> [] \<and> CHR '' '' \<notin> set u"
      by simp
    from tokens_spaced [OF this, of n k] m show ?thesis by (simp add: layout_def)
  qed
  from tk [OF assms(2), of lead trail] tk [OF assms(3), of lead' trail']
  have "tokens (layout lead t (zip gaps us) trail) = tokens (layout lead' t (zip gaps' us) trail')"
    by simp
  from evalExpression_tokens [OF this, of A r]
  have e: "evalExpression A (layout lead t (zip gaps us) trail) r
         = evalExpression A (layout lead' t (zip gaps' us) trail') r" .
  have "tokens (replicate lead (CHR '' '')) = tokens []"
    using tokens_spaces [of lead] tokens_spaces [of 0] by simp
  from evalExpression_tokens [OF this, of A r] tk [OF assms(2), of lead trail] e tokens_spaces
  show ?thesis by simp
qed

theorem spacing_does_not_matter_witness:
  "layout 0 ''2'' (zip [0, 0] [''+'', ''3'']) 0 = ''2 + 3''
   \<and> layout 3 ''2'' (zip [2, 1] [''+'', ''3'']) 1 = ''   2   +  3 ''
   \<and> tokens ''   2   +  3 '' = [''2'', ''+'', ''3'']
   \<and> evalExpression exact_arith ''   2   +  3 '' 0 = evalExpression exact_arith ''2 + 3'' 0"
proof -
  have h: "\<forall>u \<in> set (''2'' # [''+'', ''3'']). u \<noteq> [] \<and> CHR '' '' \<notin> set u" by simp
  have l1: "layout 0 ''2'' (zip [0, 0] [''+'', ''3'']) 0 = ''2 + 3''"
    by (simp add: layout_def)
  have l2: "layout 3 ''2'' (zip [2, 1] [''+'', ''3'']) 1 = ''   2   +  3 ''"
    by (simp add: layout_def numeral_3_eq_3)
  from spacing_does_not_matter [OF h, of "[2, 1]" "[0, 0]" 3 1 exact_arith 0 0 0] l1 l2
  show ?thesis by simp
qed

text \<open>
  The claim as stated fails for a tab: \<open>2 + 3\<close> evaluates to 5, and the same
  expression with a tab in place of each space is one token, which is no valid operand.
\<close>

theorem tab_is_not_a_separator:
  "evalExpression exact_arith ''2 + 3'' 0 =
     Some (Some (Returns \<lparr>returned = True, result_after = 5, printed = []\<rparr>))
   \<and> evalExpression exact_arith (''2'' @ [CHR 0x09] @ ''+'' @ [CHR 0x09] @ ''3'') 0 =
     Some (Some (Returns \<lparr>returned = False, result_after = 0,
                  printed = [''Invalid operand: 2'' @ [CHR 0x09] @ ''+'' @ [CHR 0x09]
                             @ ''3'' @ ''\<newline>'']\<rparr>))"
  by (simp add: run_simps)

end
